theory Spec2Isabelle
  imports Complex_Main
begin

section \<open>The composite IPR engine of IPR.py\<close>

text \<open>
  The program computes an inflow performance relationship with one function,
  \<open>calculate_q\<close> (lines 19 to 37), which first solves the productivity index J from
  the test point (lines 21 to 29) and then evaluates the rate at the requested
  pressure (lines 32 to 37). The sampled curve (lines 40 and 41) and the displayed
  index (lines 67 and 68) are module-level statements.

  Numbers. The inputs are Python ints delivered by the input widgets, the sample
  pressures are floats, and \<open>/\<close> is true division. The function is modelled twice.
  \<open>calculate_q\<close> computes with \<^typ>\<open>real\<close>, that is, with the exact values of the
  formulas; the properties that do not turn on rounding are stated about it.
  \<open>calculate_q_fl\<close> rounds the result of every operation to an IEEE double, as
  Python does. In both, what Python does beyond returning a number is kept:
  a division whose divisor is zero raises \<open>ZeroDivisionError\<close>, and the exception
  ends the computation. The program defines no exception of its own and checks no
  range: \<open>ZeroDivisionError\<close> is the only error it can signal.

  Division is that of Python's own numbers. A numpy float divided by zero gives an
  infinity and a warning instead of an exception; in this program that could only
  happen to \<open>p_val/pb\<close> for a negative sample pressure with \<open>pb = 0\<close>, and the
  samples of line 40 are not negative.
\<close>

subsection \<open>Errors and division\<close>

datatype py_error = ZeroDivisionError

definition py_div :: "real \<Rightarrow> real \<Rightarrow> py_error + real" where
  "py_div a b = (if b = 0 then Inl ZeroDivisionError else Inr (a / b))"

subsection \<open>The two flow regimes\<close>

text \<open>
  The three tests \<open>pwf_test >= pb\<close> (line 21), \<open>p_val >= pb\<close> (line 32) and
  \<open>pwf_test >= pb\<close> (line 67) are the same comparison of a pressure with the
  bubble point; \<open>region_of\<close> names the branch it selects.
\<close>

datatype region = Linear | Vogel

definition region_of :: "real \<Rightarrow> real \<Rightarrow> region" where
  "region_of p pb = (if p \<ge> pb then Linear else Vogel)"

text \<open>
  Lines 28 and 36: \<open>(1 - 0.2*(p/pb) - 0.8*(p/pb)**2)\<close>. The quotient \<open>p/pb\<close>
  raises when \<open>pb\<close> is zero.
\<close>

definition vogel_term :: "real \<Rightarrow> real \<Rightarrow> py_error + real" where
  "vogel_term p pb =
     (case py_div p pb of
        Inl e \<Rightarrow> Inl e
      | Inr x \<Rightarrow> Inr (1 - 0.2 * x - 0.8 * x ^ 2))"

subsection \<open>Step 1 of \<open>calculate_q\<close>: the productivity index\<close>

definition solve_j :: "real \<Rightarrow> real \<Rightarrow> real \<Rightarrow> real \<Rightarrow> py_error + real" where
  "solve_j pr pb q_test pwf_test =
     (case region_of pwf_test pb of
        Linear \<Rightarrow> py_div q_test (pr - pwf_test)
      | Vogel \<Rightarrow>
          (case vogel_term pwf_test pb of
             Inl e \<Rightarrow> Inl e
           | Inr vt \<Rightarrow> py_div q_test ((pr - pb) + (pb / 1.8) * vt)))"

subsection \<open>Step 2 of \<open>calculate_q\<close>: the rate at a pressure\<close>

text \<open>Line 33, the linear law.\<close>

definition linear_rate :: "real \<Rightarrow> real \<Rightarrow> real \<Rightarrow> real" where
  "linear_rate j pr p_val = j * (pr - p_val)"

text \<open>Lines 35 to 37, the rate at the bubble point plus the Vogel increment.\<close>

definition vogel_rate :: "real \<Rightarrow> real \<Rightarrow> real \<Rightarrow> real \<Rightarrow> py_error + real" where
  "vogel_rate j pr pb p_val =
     (let q_at_pb = j * (pr - pb) in
      case vogel_term p_val pb of
        Inl e \<Rightarrow> Inl e
      | Inr vt \<Rightarrow> Inr (q_at_pb + (j * pb / 1.8) * vt))"

definition rate_at :: "real \<Rightarrow> real \<Rightarrow> real \<Rightarrow> real \<Rightarrow> py_error + real" where
  "rate_at p_val pr pb j =
     (case region_of p_val pb of
        Linear \<Rightarrow> Inr (linear_rate j pr p_val)
      | Vogel \<Rightarrow> vogel_rate j pr pb p_val)"

subsection \<open>The whole function\<close>

definition calculate_q :: "real \<Rightarrow> real \<Rightarrow> real \<Rightarrow> real \<Rightarrow> real \<Rightarrow> py_error + real" where
  "calculate_q p_val pr pb q_test pwf_test =
     (case solve_j pr pb q_test pwf_test of
        Inl e \<Rightarrow> Inl e
      | Inr j \<Rightarrow> rate_at p_val pr pb j)"

subsection \<open>The index computed again for display (lines 67 and 68)\<close>

definition j_disp :: "real \<Rightarrow> real \<Rightarrow> real \<Rightarrow> real \<Rightarrow> py_error + real" where
  "j_disp pr pb q_test pwf_test =
     (case region_of pwf_test pb of
        Linear \<Rightarrow> py_div q_test (pr - pwf_test)
      | Vogel \<Rightarrow>
          (case py_div pwf_test pb of
             Inl e \<Rightarrow> Inl e
           | Inr x \<Rightarrow>
               py_div q_test ((pr - pb) + (pb / 1.8) * (1 - 0.2 * x - 0.8 * x ^ 2))))"

subsection \<open>The same function in IEEE doubles\<close>

text \<open>
  A double is modelled by the real number it stands for. \<open>to_double\<close> rounds a real
  to the nearest double, ties to the even significand: 53 significant bits, and the
  spacing of the subnormal numbers below \<open>2 ^ - 1022\<close>. Overflow is not modelled; the
  integers that the input widgets deliver stay far from it. \<open>binade x\<close> is the
  exponent \<open>e\<close> with \<open>2 ^ e \<le> x < 2 ^ (e + 1)\<close>, computed from the bit length of an
  integer (\<open>binade_bounds\<close> below).
\<close>

fun bit_length :: "nat \<Rightarrow> nat" where
  "bit_length n = (if n = 0 then 0 else Suc (bit_length (n div 2)))"

declare bit_length.simps [simp del]

definition binade :: "real \<Rightarrow> int" where
  "binade x =
     (if 1 \<le> x then int (bit_length (nat \<lfloor>x\<rfloor>)) - 1
      else - int (bit_length (nat (\<lceil>1 / x\<rceil> - 1))))"

definition round_even :: "real \<Rightarrow> int" where
  "round_even y =
     (let f = \<lfloor>y\<rfloor>; r = y - of_int f
      in if r < 1 / 2 then f
         else if 1 / 2 < r then f + 1
         else if even f then f else f + 1)"

definition ulp :: "real \<Rightarrow> real" where
  "ulp x = 2 powi (max (binade \<bar>x\<bar>) (- 1022) - 52)"

definition to_double :: "real \<Rightarrow> real" where
  "to_double x =
     (if x = 0 then 0
      else sgn x * (of_int (round_even (\<bar>x\<bar> / ulp x)) * ulp x))"

text \<open>
  Python's float operations: the exact result, rounded. A difference of two of the
  widgets' integers is computed on ints and is exact; it is a double already, and
  rounding leaves it as it is.
\<close>

definition fl_add :: "real \<Rightarrow> real \<Rightarrow> real" where
  "fl_add a b = to_double (a + b)"

definition fl_sub :: "real \<Rightarrow> real \<Rightarrow> real" where
  "fl_sub a b = to_double (a - b)"

definition fl_mul :: "real \<Rightarrow> real \<Rightarrow> real" where
  "fl_mul a b = to_double (a * b)"

definition fl_div :: "real \<Rightarrow> real \<Rightarrow> py_error + real" where
  "fl_div a b = (if b = 0 then Inl ZeroDivisionError else Inr (to_double (a / b)))"

text \<open>
  \<open>x ** 2\<close> on a float calls the \<open>pow\<close> of the C library, which is not under src/ and
  is not specified to the last bit: the double model takes it as a parameter
  \<open>pow2\<close>. \<open>square_fl\<close> is the correctly rounded square, the value an exact \<open>pow\<close>
  returns. The linear branches do not call it.
\<close>

definition square_fl :: "real \<Rightarrow> real" where
  "square_fl x = to_double (x * x)"

text \<open>Lines 19 to 37 again, every operation rounded.\<close>

definition vogel_term_fl :: "(real \<Rightarrow> real) \<Rightarrow> real \<Rightarrow> real \<Rightarrow> py_error + real" where
  "vogel_term_fl pow2 p pb =
     (case fl_div p pb of
        Inl e \<Rightarrow> Inl e
      | Inr x \<Rightarrow>
          Inr (fl_sub (fl_sub 1 (fl_mul (to_double 0.2) x)) (fl_mul (to_double 0.8) (pow2 x))))"

definition solve_j_fl ::
  "(real \<Rightarrow> real) \<Rightarrow> real \<Rightarrow> real \<Rightarrow> real \<Rightarrow> real \<Rightarrow> py_error + real" where
  "solve_j_fl pow2 pr pb q_test pwf_test =
     (case region_of pwf_test pb of
        Linear \<Rightarrow> fl_div q_test (fl_sub pr pwf_test)
      | Vogel \<Rightarrow>
          (case vogel_term_fl pow2 pwf_test pb of
             Inl e \<Rightarrow> Inl e
           | Inr vt \<Rightarrow>
               fl_div q_test
                 (fl_add (fl_sub pr pb) (fl_mul (to_double (pb / to_double 1.8)) vt))))"

definition rate_at_fl ::
  "(real \<Rightarrow> real) \<Rightarrow> real \<Rightarrow> real \<Rightarrow> real \<Rightarrow> real \<Rightarrow> py_error + real" where
  "rate_at_fl pow2 p_val pr pb j =
     (case region_of p_val pb of
        Linear \<Rightarrow> Inr (fl_mul j (fl_sub pr p_val))
      | Vogel \<Rightarrow>
          (let q_at_pb = fl_mul j (fl_sub pr pb) in
           case vogel_term_fl pow2 p_val pb of
             Inl e \<Rightarrow> Inl e
           | Inr vt \<Rightarrow>
               Inr (fl_add q_at_pb (fl_mul (to_double (fl_mul j pb / to_double 1.8)) vt))))"

definition calculate_q_fl ::
  "(real \<Rightarrow> real) \<Rightarrow> real \<Rightarrow> real \<Rightarrow> real \<Rightarrow> real \<Rightarrow> real \<Rightarrow> py_error + real" where
  "calculate_q_fl pow2 p_val pr pb q_test pwf_test =
     (case solve_j_fl pow2 pr pb q_test pwf_test of
        Inl e \<Rightarrow> Inl e
      | Inr j \<Rightarrow> rate_at_fl pow2 p_val pr pb j)"

subsection \<open>The sampled curve (lines 40 and 41)\<close>

text \<open>
  Modelled from the spec: \<open>np.linspace\<close> is a function of the numpy library and is
  not under src/. Section 4.3 of the spec asks for pressures evenly spaced over
  \<open>[0, pr]\<close>, both ends included; the definition computes them as numpy does: the
  samples are \<open>i * step + start\<close> for \<open>i\<close> below \<open>num\<close>, with
  \<open>step = (stop - start) / (num - 1)\<close>, and the last sample is then overwritten with
  \<open>stop\<close>; one sample is \<open>start\<close> alone, and zero samples give the empty array.
\<close>

definition linspace :: "real \<Rightarrow> real \<Rightarrow> nat \<Rightarrow> real list" where
  "linspace start stop num =
     (if num = 0 then []
      else if num = 1 then [start]
      else (let step = (stop - start) / real (num - 1)
            in map (\<lambda>i. real i * step + start) [0..<num - 1] @ [stop]))"

text \<open>Line 40: \<open>pwf_range = np.linspace(0, pr, 100)\<close>.\<close>

definition pwf_range :: "real \<Rightarrow> real list" where
  "pwf_range pr = linspace 0 pr 100"

text \<open>
  A list comprehension whose element expression can raise: the elements are computed
  from left to right and the first exception ends the comprehension.
\<close>

primrec map_result :: "('a \<Rightarrow> py_error + 'b) \<Rightarrow> 'a list \<Rightarrow> py_error + 'b list" where
  "map_result f [] = Inr []"
| "map_result f (x # xs) =
     (case f x of
        Inl e \<Rightarrow> Inl e
      | Inr y \<Rightarrow> (case map_result f xs of Inl e \<Rightarrow> Inl e | Inr ys \<Rightarrow> Inr (y # ys)))"

text \<open>Line 41: \<open>q_curve = [calculate_q(p, pr, pb, q_test, pwf_test) for p in pwf_range]\<close>.\<close>

definition q_curve :: "real \<Rightarrow> real \<Rightarrow> real \<Rightarrow> real \<Rightarrow> py_error + real list" where
  "q_curve pr pb q_test pwf_test =
     map_result (\<lambda>p. calculate_q p pr pb q_test pwf_test) (pwf_range pr)"

text \<open>
  Modelled from the spec: a sampler with a sample count chosen by the caller is not
  under src/, where lines 40 and 41 sample inline with the constant 100. Section 4.3
  of the spec: \<open>sample_curve(pr, pb, J, n)\<close> is the ordered sequence of \<open>(p, q)\<close> of
  length \<open>n\<close>, \<open>p\<close> evenly spaced over \<open>[0, pr]\<close> inclusive, each
  \<open>q = rate_at(p, pr, pb, J)\<close>.
\<close>

definition sample_curve :: "real \<Rightarrow> real \<Rightarrow> real \<Rightarrow> nat \<Rightarrow> py_error + (real \<times> real) list" where
  "sample_curve pr pb j n =
     map_result (\<lambda>p. case rate_at p pr pb j of Inl e \<Rightarrow> Inl e | Inr q \<Rightarrow> Inr (p, q))
       (linspace 0 pr n)"

section \<open>Auxiliary facts\<close>

subsection \<open>The Vogel polynomial\<close>

lemma vogel_term_Inr:
  "pb \<noteq> 0 \<Longrightarrow> vogel_term p pb = Inr (1 - 0.2 * (p / pb) - 0.8 * (p / pb) ^ 2)"
  by (simp add: vogel_term_def py_div_def)

text \<open>The quotient is not guarded: with a zero bubble point the term raises.\<close>

lemma vogel_term_zero_pb: "vogel_term p 0 = Inl ZeroDivisionError"
  by (simp add: vogel_term_def py_div_def)

lemma vogel_poly_factor:
  "1 - 0.2 * x - 0.8 * x ^ 2 = (1 - x) * (1 + 0.8 * (x::real))"
  by (simp add: field_simps power2_eq_square)

lemma vogel_poly_pos:
  assumes "0 \<le> x" "x < 1"
  shows "0 < 1 - 0.2 * x - 0.8 * (x::real) ^ 2"
proof -
  have "0 < (1 - x) * (1 + 0.8 * x)"
    using assms by (intro mult_pos_pos) auto
  then show ?thesis by (simp only: vogel_poly_factor)
qed

lemma vogel_poly_antimono:
  assumes "0 \<le> x" "x \<le> y"
  shows "1 - 0.2 * y - 0.8 * y ^ 2 \<le> 1 - 0.2 * x - 0.8 * (x::real) ^ 2"
proof -
  have sq: "x ^ 2 \<le> y ^ 2" using assms by (intro power_mono) auto
  have "0.2 * x \<le> 0.2 * y" using assms by simp
  moreover have "0.8 * x ^ 2 \<le> 0.8 * y ^ 2" using sq by simp
  ultimately show ?thesis by linarith
qed

subsection \<open>The composite denominator\<close>

lemma composite_denominator_pos:
  assumes "0 \<le> pwf_test" "pwf_test < pb" "pb \<le> (pr::real)"
  shows "0 < (pr - pb) + (pb / 1.8) * (1 - 0.2 * (pwf_test / pb) - 0.8 * (pwf_test / pb) ^ 2)"
proof -
  have pb: "0 < pb" using assms by linarith
  have "0 \<le> pwf_test / pb" "pwf_test / pb < 1" using assms pb by simp_all
  then have "0 < 1 - 0.2 * (pwf_test / pb) - 0.8 * (pwf_test / pb) ^ 2"
    by (rule vogel_poly_pos)
  moreover have "0 < pb / 1.8" using pb by simp
  ultimately have "0 < (pb / 1.8) * (1 - 0.2 * (pwf_test / pb) - 0.8 * (pwf_test / pb) ^ 2)"
    by (rule mult_pos_pos[rotated])
  with assms show ?thesis by linarith
qed


lemma solve_j_linear:
  "pb \<le> pwf_test \<Longrightarrow> solve_j pr pb q_test pwf_test = py_div q_test (pr - pwf_test)"
  by (simp add: solve_j_def region_of_def)

lemma solve_j_vogel:
  assumes "0 \<le> pwf_test" "pwf_test < pb" "pb \<le> pr"
  shows "solve_j pr pb q_test pwf_test =
           Inr (q_test / ((pr - pb) + (pb / 1.8)
                  * (1 - 0.2 * (pwf_test / pb) - 0.8 * (pwf_test / pb) ^ 2)))"
proof -
  have "pb \<noteq> 0" using assms by linarith
  moreover note composite_denominator_pos[OF assms]
  ultimately show ?thesis
    using assms(2) by (simp add: solve_j_def region_of_def vogel_term_Inr py_div_def)
qed

subsection \<open>The evaluator, branch by branch\<close>

lemma rate_at_linear:
  "pb \<le> p \<Longrightarrow> rate_at p pr pb j = Inr (j * (pr - p))"
  by (simp add: rate_at_def region_of_def linear_rate_def)

lemma rate_at_vogel:
  "p < pb \<Longrightarrow> pb \<noteq> 0 \<Longrightarrow>
   rate_at p pr pb j =
     Inr (j * (pr - pb) + (j * pb / 1.8) * (1 - 0.2 * (p / pb) - 0.8 * (p / pb) ^ 2))"
  by (simp add: rate_at_def region_of_def vogel_rate_def vogel_term_Inr)

lemma rate_at_total:
  assumes "0 \<le> pb" "0 \<le> p"
  shows "rate_at p pr pb j =
           Inr (if pb \<le> p then j * (pr - p)
                else j * (pr - pb) + (j * pb / 1.8) * (1 - 0.2 * (p / pb) - 0.8 * (p / pb) ^ 2))"
proof (cases "pb \<le> p")
  case True
  then show ?thesis by (simp add: rate_at_linear)
next
  case False
  then have "p < pb" "pb \<noteq> 0" using assms by linarith+
  then show ?thesis using False by (simp add: rate_at_vogel)
qed

subsection \<open>Sampling\<close>

lemma length_linspace: "length (linspace start stop num) = num"
  by (simp add: linspace_def Let_def)

lemma nth_linspace:
  assumes "2 \<le> num" "i < num"
  shows "linspace start stop num ! i = real i * ((stop - start) / real (num - 1)) + start"
proof (cases "i < num - 1")
  case True
  then show ?thesis using assms by (simp add: linspace_def Let_def nth_append)
next
  case False
  then have i: "i = num - 1" using assms by linarith
  have "real (num - 1) \<noteq> 0" using assms by simp
  then have "real (num - 1) * ((stop - start) / real (num - 1)) + start = stop" by simp
  then show ?thesis using assms i by (simp add: linspace_def Let_def nth_append)
qed

lemma length_pwf_range: "length (pwf_range pr) = 100"
  by (simp add: pwf_range_def length_linspace)

lemma nth_pwf_range: "i < 100 \<Longrightarrow> pwf_range pr ! i = real i * (pr / 99)"
  by (simp add: pwf_range_def nth_linspace)

lemma map_result_Inr:
  "(\<And>x. x \<in> set xs \<Longrightarrow> f x = Inr (g x)) \<Longrightarrow> map_result f xs = Inr (map g xs)"
  by (induction xs) simp_all

lemma nth_linspace_zero:
  assumes "2 \<le> n" "i < n"
  shows "linspace 0 pr n ! i = real i * (pr / real (n - 1))"
  using nth_linspace[OF assms, of 0 pr] by simp

lemma linspace_bounds:
  assumes "2 \<le> n" "0 < pr" "p \<in> set (linspace 0 pr n)"
  shows "0 \<le> p \<and> p \<le> pr"
proof -
  obtain i where i: "i < n" "p = linspace 0 pr n ! i"
    using assms(3) by (auto simp: in_set_conv_nth length_linspace)
  then have p: "p = real i * (pr / real (n - 1))" using assms(1) by (simp add: nth_linspace_zero)
  have n1: "0 < real (n - 1)" using assms(1) by simp
  have "real i \<le> real (n - 1)" using i(1) by simp
  then have "real i * (pr / real (n - 1)) \<le> real (n - 1) * (pr / real (n - 1))"
    using assms(2) n1 by (intro mult_right_mono) simp_all
  moreover have "real (n - 1) * (pr / real (n - 1)) = pr" using n1 by simp
  moreover have "0 \<le> real i * (pr / real (n - 1))" using assms(2) by simp
  ultimately show ?thesis using p by simp
qed

lemma sorted_linspace:
  assumes "2 \<le> n" "0 < pr"
  shows "sorted_wrt (<) (linspace 0 pr n)"
proof -
  have step: "0 < pr / real (n - 1)" using assms by simp
  have "linspace 0 pr n ! i < linspace 0 pr n ! k" if "i < k" "k < n" for i k
  proof -
    have "real i < real k" using that by simp
    then have "real i * (pr / real (n - 1)) < real k * (pr / real (n - 1))"
      using step by (rule mult_strict_right_mono)
    then show ?thesis using that assms(1) by (simp add: nth_linspace_zero)
  qed
  then show ?thesis by (simp add: sorted_wrt_iff_nth_less length_linspace)
qed

lemma sample_curve_eq:
  assumes "2 \<le> n" "0 < pr" "0 \<le> pb"
  shows "sample_curve pr pb j n =
           Inr (map (\<lambda>p. (p, if pb \<le> p then j * (pr - p)
                            else j * (pr - pb) + (j * pb / 1.8)
                                   * (1 - 0.2 * (p / pb) - 0.8 * (p / pb) ^ 2)))
                  (linspace 0 pr n))"
  unfolding sample_curve_def
proof (rule map_result_Inr)
  fix p assume "p \<in> set (linspace 0 pr n)"
  then have "0 \<le> p" using linspace_bounds[OF assms(1,2)] by simp
  with assms(3) show "(case rate_at p pr pb j of Inl e \<Rightarrow> Inl e | Inr q \<Rightarrow> Inr (p, q)) =
      Inr (p, if pb \<le> p then j * (pr - p)
              else j * (pr - pb) + (j * pb / 1.8) * (1 - 0.2 * (p / pb) - 0.8 * (p / pb) ^ 2))"
    by (simp add: rate_at_total)
qed

subsection \<open>Rounding to doubles\<close>

text \<open>
  \<open>binade\<close> is the binary exponent, and \<open>to_double\<close> moves a number by at most half a
  unit in the last place.
\<close>

lemma bit_length_bounds:
  "0 < n \<Longrightarrow> 2 ^ (bit_length n - 1) \<le> n \<and> n < 2 ^ bit_length n"
proof (induction n rule: bit_length.induct)
  case (1 n)
  show ?case
  proof (cases "n div 2 = 0")
    case True
    then have "n = 1" using "1.prems" by linarith
    then show ?thesis by (simp add: bit_length.simps)
  next
    case False
    then have pos: "0 < n div 2" by simp
    let ?k = "bit_length (n div 2)"
    have ih: "2 ^ (?k - 1) \<le> n div 2" "n div 2 < 2 ^ ?k"
      using "1.IH" "1.prems" pos by simp_all
    have k: "0 < ?k" using pos by (subst bit_length.simps) simp
    have bl: "bit_length n = Suc ?k" using "1.prems" by (subst bit_length.simps) simp
    have "(2::nat) ^ ?k = 2 * 2 ^ (?k - 1)" using k by (cases ?k) simp_all
    then have lo: "2 ^ ?k \<le> n" using ih(1) by linarith
    have "n < 2 * (n div 2) + 2" by linarith
    then have hi: "n < 2 ^ Suc ?k" using ih(2) by simp
    show ?thesis using lo hi bl by simp
  qed
qed

lemma real_pow2_le: "(2::nat) ^ a \<le> n \<Longrightarrow> (2::real) ^ a \<le> real n"
  by (metis of_nat_le_iff of_nat_numeral of_nat_power)

lemma real_pow2_gt: "n < (2::nat) ^ a \<Longrightarrow> real n + 1 \<le> (2::real) ^ a"
proof -
  assume "n < (2::nat) ^ a"
  then have "Suc n \<le> 2 ^ a" by simp
  then have "real (Suc n) \<le> real (2 ^ a)" by (simp only: of_nat_le_iff)
  then show ?thesis by simp
qed

lemma binade_bounds:
  assumes "0 < x"
  shows "2 powi binade x \<le> x \<and> x < 2 powi (binade x + 1)"
proof (cases "1 \<le> x")
  case True
  define n where "n = nat \<lfloor>x\<rfloor>"
  define k where "k = bit_length n"
  have n: "0 < n" using True by (simp add: n_def)
  have b: "2 ^ (k - 1) \<le> n" "n < 2 ^ k"
    using bit_length_bounds[OF n] by (simp_all add: k_def)
  have k: "0 < k" unfolding k_def using n by (subst bit_length.simps) simp
  have e: "binade x = int (k - 1)" using True k by (simp add: binade_def k_def n_def)
  have nx: "real n \<le> x" "x < real n + 1" using True unfolding n_def by linarith+
  have lo: "2 ^ (k - 1) \<le> x" using real_pow2_le[OF b(1)] nx(1) by linarith
  have hi: "x < 2 ^ k" using real_pow2_gt[OF b(2)] nx(2) by linarith
  have e1: "binade x + 1 = int k" using k e by simp
  show ?thesis using lo hi by (simp only: e1 power_int_of_nat) (simp only: e power_int_of_nat)
next
  case False
  then have x: "x < 1" by simp
  define y where "y = 1 / x"
  define m where "m = nat (\<lceil>y\<rceil> - 1)"
  define k where "k = bit_length m"
  have y: "1 < y" using assms x by (simp add: y_def)
  then have c: "2 \<le> \<lceil>y\<rceil>" by linarith
  then have m: "0 < m" by (simp add: m_def)
  have b: "2 ^ (k - 1) \<le> m" "m < 2 ^ k"
    using bit_length_bounds[OF m] by (simp_all add: k_def)
  have k: "0 < k" unfolding k_def using m by (subst bit_length.simps) simp
  have e: "binade x = - int k" using False by (simp add: binade_def k_def m_def y_def)
  have my: "real m < y" "y \<le> real m + 1" using c unfolding m_def by linarith+
  have "y \<le> 2 ^ k" using real_pow2_gt[OF b(2)] my(2) by linarith
  then have lo: "inverse (2 ^ k) \<le> x" using assms by (simp add: y_def field_simps)
  have "2 ^ (k - 1) < y" using real_pow2_le[OF b(1)] my(1) by linarith
  then have hi: "x < inverse (2 ^ (k - 1))" using assms by (simp add: y_def field_simps)
  have e1: "binade x + 1 = - int (k - 1)" using k e by simp
  show ?thesis
    using lo hi by (simp only: e1 power_int_minus power_int_of_nat) (simp only: e power_int_minus power_int_of_nat)
qed

lemma ulp_pos: "0 < ulp x"
  by (simp add: ulp_def)

lemma round_even_error: "\<bar>of_int (round_even y) - y\<bar> \<le> 1 / 2"
  unfolding round_even_def Let_def by (auto simp: abs_if) linarith+

lemma to_double_error: "\<bar>to_double x - x\<bar> \<le> ulp x / 2"
proof (cases "x = 0")
  case True
  then show ?thesis using ulp_pos[of x] by (simp add: to_double_def)
next
  case False
  define u where "u = ulp x"
  define m where "m = real_of_int (round_even (\<bar>x\<bar> / u))"
  have u: "0 < u" unfolding u_def by (rule ulp_pos)
  have "\<bar>m - \<bar>x\<bar> / u\<bar> \<le> 1 / 2" unfolding m_def by (rule round_even_error)
  then have "\<bar>m - \<bar>x\<bar> / u\<bar> * u \<le> 1 / 2 * u" using u by (intro mult_right_mono) simp_all
  moreover have "\<bar>m - \<bar>x\<bar> / u\<bar> * u = \<bar>m * u - \<bar>x\<bar>\<bar>"
  proof -
    have "(m - \<bar>x\<bar> / u) * u = m * u - \<bar>x\<bar>" using u by (simp add: left_diff_distrib)
    then have "\<bar>m * u - \<bar>x\<bar>\<bar> = \<bar>m - \<bar>x\<bar> / u\<bar> * \<bar>u\<bar>" by (simp only: abs_mult[symmetric])
    then show ?thesis using u by simp
  qed
  ultimately have b: "\<bar>m * u - \<bar>x\<bar>\<bar> \<le> u / 2" by simp
  have "to_double x - x = sgn x * (m * u - \<bar>x\<bar>)"
    using False by (simp add: to_double_def u_def m_def right_diff_distrib sgn_mult_abs mult_sgn_abs)
  then have "\<bar>to_double x - x\<bar> = \<bar>m * u - \<bar>x\<bar>\<bar>"
    using False by (simp add: abs_mult abs_sgn_eq del: abs_diff_le_iff)
  then show ?thesis using b by (simp add: u_def)
qed

text \<open>
  Evaluation on numerals. The doubles of the literals \<open>0.1\<close>, \<open>0.2\<close>, \<open>0.8\<close> and
  \<open>1.8\<close> are the known ones, and small integers are doubles.
\<close>

lemmas fl_eval =
  to_double_def ulp_def binade_def bit_length.simps round_even_def Let_def power_int_minus
  fl_add_def fl_sub_def fl_mul_def fl_div_def

lemma to_double_one_tenth: "to_double 0.1 = 3602879701896397 / 36028797018963968"
  by (simp add: fl_eval)

lemma to_double_literals:
  "to_double 0.2 = 3602879701896397 / 18014398509481984"
  "to_double 0.8 = 3602879701896397 / 4503599627370496"
  "to_double 1.8 = 8106479329266893 / 4503599627370496"
  by (simp_all add: fl_eval)

lemma to_double_ints: "to_double 350 = 350" "to_double 1393 = 1393" "to_double (- 7) = - 7"
  by (simp_all add: fl_eval)





text \<open>The composite branch, with the correctly rounded square for \<open>x ** 2\<close>.\<close>

lemma calculate_q_fl_800:
  "calculate_q_fl square_fl 800 2500 1000 350 800 = Inr (6157265115545599 / 17592186044416)"
  by (simp add: calculate_q_fl_def solve_j_fl_def rate_at_fl_def vogel_term_fl_def square_fl_def
      region_of_def fl_eval)

section \<open>Properties\<close>




text \<open>
  Claim C2. Continuity at the regime boundary: for every \<open>pr > 0\<close>, \<open>0 < pb \<le> pr\<close>
  and J, the linear formula \<open>J*(pr - pb)\<close> and the Vogel formula give the same rate at
  \<open>p = pb\<close>. The term \<open>vogel_term\<close> is 0 there, not 1: \<open>1 - 0.2 - 0.8 = 0\<close>, so the
  Vogel increment vanishes at the bubble point. It is 1 at \<open>p = 0\<close>.
\<close>

theorem boundary_continuity:
  assumes "0 < pr" "0 < pb" "pb \<le> pr"
  shows "vogel_term pb pb = Inr 0 \<and> vogel_rate j pr pb pb = Inr (linear_rate j pr pb)"
proof -
  have "pb \<noteq> 0" using assms by simp
  then have "vogel_term pb pb = Inr 0"
    by (simp add: vogel_term_def py_div_def)
  then show ?thesis
    by (simp add: vogel_rate_def linear_rate_def)
qed

theorem boundary_continuity_witness:
  "vogel_term 1000 1000 = Inr 0
     \<and> vogel_rate (7 / 10) 2500 1000 1000 = Inr (linear_rate (7 / 10) 2500 1000)"
  by (rule boundary_continuity) simp_all

text \<open>
  The value 1 that the term is said to take at the bubble point is not what the
  program computes: at \<open>p = pb = 1000\<close> the term is 0.
\<close>

theorem vogel_term_at_bubble_point_not_one:
  "vogel_term 1000 1000 = Inr 0 \<and> vogel_term 1000 1000 \<noteq> Inr 1"
  by (simp add: vogel_term_def py_div_def)

text \<open>
  Claim C3. With \<open>pwf_test = pr\<close> (no test drawdown) and \<open>pb \<le> pr\<close>, solving for
  the index takes the linear branch and raises Python's \<open>ZeroDivisionError\<close> on
  \<open>q_test / (pr - pwf_test)\<close>; no number, infinite or otherwise, is returned. The
  program has no error named DegenerateDrawdown. With \<open>pb > pr\<close> the same test
  pressure lies below the bubble point, the composite branch runs and returns a
  finite index.
\<close>

theorem zero_drawdown_raises:
  assumes "pb \<le> pr"
  shows "solve_j pr pb q_test pr = Inl ZeroDivisionError
           \<and> calculate_q p_val pr pb q_test pr = Inl ZeroDivisionError"
  using assms by (simp add: calculate_q_def solve_j_linear py_div_def)

theorem zero_drawdown_raises_witness:
  "solve_j 2500 1000 350 2500 = Inl ZeroDivisionError
     \<and> calculate_q 1850 2500 1000 350 2500 = Inl ZeroDivisionError"
  by (rule zero_drawdown_raises) simp

text \<open>
  Without \<open>pb \<le> pr\<close> no error is signalled: \<open>pr = 1000\<close>, \<open>pb = 2000\<close>,
  \<open>pwf_test = 1000\<close>, \<open>q_test = 350\<close> gives the index \<open>-1.575\<close>.
\<close>

theorem zero_drawdown_below_bubble_point_returns:
  "solve_j 1000 2000 350 1000 = Inr (- (63 / 40))"
  by (simp add: solve_j_def region_of_def vogel_term_def py_div_def power2_eq_square)

text \<open>
  Claim C4. When \<open>pb = pr\<close> and \<open>pwf_test\<close> is in \<open>[0, pr]\<close>, the solver takes the
  linear branch exactly at \<open>pwf_test = pr\<close> and the composite (Vogel) branch exactly
  for \<open>pwf_test < pr\<close>: line 21 tests \<open>pwf_test >= pb\<close>, and every test pressure
  below the reservoir pressure is below the bubble point of a saturated reservoir.
\<close>

theorem saturated_reservoir_region:
  assumes "pb = pr" "0 \<le> pwf_test" "pwf_test \<le> pr"
  shows "(region_of pwf_test pb = Linear) = (pwf_test = pr)
           \<and> (region_of pwf_test pb = Vogel) = (pwf_test < pr)
           \<and> solve_j pr pb q_test pwf_test =
               (if pwf_test = pr then Inl ZeroDivisionError
                else Inr (q_test / ((pr - pb) + (pb / 1.8)
                       * (1 - 0.2 * (pwf_test / pb) - 0.8 * (pwf_test / pb) ^ 2))))"
proof -
  have "solve_j pr pb q_test pwf_test = Inl ZeroDivisionError" if "pwf_test = pr"
    using that assms(1) by (simp add: solve_j_linear py_div_def)
  moreover have "solve_j pr pb q_test pwf_test =
      Inr (q_test / ((pr - pb) + (pb / 1.8)
             * (1 - 0.2 * (pwf_test / pb) - 0.8 * (pwf_test / pb) ^ 2)))" if "pwf_test \<noteq> pr"
    using that assms by (intro solve_j_vogel) simp_all
  moreover have "(region_of pwf_test pb = Linear) = (pwf_test = pr)"
    and "(region_of pwf_test pb = Vogel) = (pwf_test < pr)"
    using assms by (auto simp: region_of_def)
  ultimately show ?thesis by simp
qed

theorem saturated_reservoir_region_witness:
  "region_of 2000 2500 = Vogel \<and> region_of 2000 2500 \<noteq> Linear
     \<and> solve_j 2500 2500 350 2000 = Inr (63 / 82)"
  using saturated_reservoir_region [of 2500 2500 2000 350] by (simp add: power2_eq_square)

text \<open>
  The linear branch is not the only one taken when \<open>pb = pr\<close>: with
  \<open>pr = pb = 2500\<close>, \<open>pwf_test = 2000\<close>, \<open>q_test = 350\<close> the solver runs the composite
  branch and returns \<open>63/82\<close>, not the linear \<open>350/500\<close>.
\<close>

theorem saturated_reservoir_takes_vogel:
  "(0::real) \<le> 2000 \<and> (2000::real) \<le> 2500
     \<and> region_of 2000 2500 = Vogel
     \<and> solve_j 2500 2500 350 2000 = Inr (63 / 82)
     \<and> solve_j 2500 2500 350 2000 \<noteq> py_div 350 (2500 - 2000)"
  by (simp add: solve_j_def region_of_def vogel_term_def py_div_def power2_eq_square)

text \<open>
  Claim C5. When \<open>pb = 0\<close>, for every \<open>pwf_test\<close> in \<open>[0, pr]\<close> and every evaluation
  pressure \<open>p\<close> in \<open>[0, pr]\<close>, the solver and the evaluator both take the linear
  branch, so their results are those of the linear formulas, in which no division by
  \<open>pb\<close> occurs. This follows from the branch tests alone: the Vogel branch has no
  guard of its own (\<open>vogel_term_zero_pb\<close>).
\<close>

theorem zero_bubble_point_linear_only:
  assumes "pb = 0" "0 \<le> pwf_test" "pwf_test \<le> pr" "0 \<le> p" "p \<le> pr"
  shows "region_of pwf_test pb = Linear \<and> region_of p pb = Linear
           \<and> solve_j pr pb q_test pwf_test = py_div q_test (pr - pwf_test)
           \<and> rate_at p pr pb j = Inr (linear_rate j pr p)"
  using assms by (simp add: solve_j_def rate_at_def region_of_def)

theorem zero_bubble_point_linear_only_witness:
  "region_of 2000 0 = Linear \<and> region_of 1850 0 = Linear
     \<and> solve_j 2500 0 350 2000 = py_div 350 (2500 - 2000)
     \<and> rate_at 1850 2500 0 (7 / 10) = Inr (linear_rate (7 / 10) 2500 1850)"
  by (rule zero_bubble_point_linear_only) simp_all

text \<open>
  Claim C6. Monotonicity of the evaluator: for fixed \<open>pr > 0\<close>, \<open>0 \<le> pb \<le> pr\<close> and
  \<open>J > 0\<close>, and pressures \<open>p1 \<le> p2\<close> in \<open>[0, pr]\<close>, the evaluator returns a rate at
  both pressures and the rate at \<open>p1\<close> is at least the rate at \<open>p2\<close>.
\<close>

theorem rate_non_increasing:
  assumes "0 < pr" "0 \<le> pb" "pb \<le> pr" "0 < j"
    and "0 \<le> p1" "p1 \<le> p2" "p2 \<le> pr"
  shows "\<exists>q1 q2. rate_at p1 pr pb j = Inr q1 \<and> rate_at p2 pr pb j = Inr q2 \<and> q2 \<le> q1"
proof -
  let ?v = "\<lambda>p. 1 - 0.2 * (p / pb) - 0.8 * (p / pb) ^ 2"
  let ?V = "\<lambda>p. j * (pr - pb) + (j * pb / 1.8) * ?v p"
  consider (lin) "pb \<le> p1" | (mixed) "p1 < pb" "pb \<le> p2" | (vog) "p2 < pb"
    using assms by linarith
  then show ?thesis
  proof cases
    case lin
    then have "pb \<le> p2" using assms by linarith
    then have "rate_at p2 pr pb j = Inr (j * (pr - p2))" by (rule rate_at_linear)
    moreover have "rate_at p1 pr pb j = Inr (j * (pr - p1))" using lin by (rule rate_at_linear)
    moreover have "j * (pr - p2) \<le> j * (pr - p1)" using assms by simp
    ultimately show ?thesis by blast
  next
    case mixed
    have pb: "0 < pb" using mixed assms by linarith
    have r1: "rate_at p1 pr pb j = Inr (?V p1)"
      using mixed(1) pb by (intro rate_at_vogel) auto
    have r2: "rate_at p2 pr pb j = Inr (j * (pr - p2))"
      using mixed(2) by (rule rate_at_linear)
    have "0 \<le> p1 / pb" "p1 / pb < 1" using assms mixed pb by simp_all
    then have "0 < ?v p1" by (rule vogel_poly_pos)
    moreover have "0 < j * pb / 1.8" using pb assms by simp
    ultimately have "0 < (j * pb / 1.8) * ?v p1" by (rule mult_pos_pos[rotated])
    moreover have "j * (pr - p2) \<le> j * (pr - pb)" using assms mixed by simp
    ultimately have "j * (pr - p2) \<le> ?V p1" by linarith
    with r1 r2 show ?thesis by blast
  next
    case vog
    have p1: "p1 < pb" using vog assms by linarith
    have pb: "0 < pb" using vog assms by linarith
    have r1: "rate_at p1 pr pb j = Inr (?V p1)"
      using p1 pb by (intro rate_at_vogel) auto
    have r2: "rate_at p2 pr pb j = Inr (?V p2)"
      using vog pb by (intro rate_at_vogel) auto
    have "0 \<le> p1 / pb" "p1 / pb \<le> p2 / pb"
      using assms pb by (simp_all add: divide_right_mono)
    then have "?v p2 \<le> ?v p1" by (rule vogel_poly_antimono)
    moreover have "0 \<le> j * pb / 1.8" using pb assms by simp
    ultimately have "(j * pb / 1.8) * ?v p2 \<le> (j * pb / 1.8) * ?v p1"
      by (rule mult_left_mono)
    then have "?V p2 \<le> ?V p1" by linarith
    with r1 r2 show ?thesis by blast
  qed
qed

theorem rate_non_increasing_witness:
  "\<exists>q1 q2. rate_at 800 2500 1000 (7 / 10) = Inr q1
     \<and> rate_at 1850 2500 1000 (7 / 10) = Inr q2 \<and> q2 \<le> q1"
  by (rule rate_non_increasing) simp_all

text \<open>
  Claim C7. Positivity of the solved index: for every input with \<open>q_test > 0\<close>,
  \<open>pr > pwf_test \<ge> 0\<close> and \<open>pr \<ge> pb \<ge> 0\<close>, the solver returns an index and the index
  is strictly positive, in the linear and in the composite branch alike; in the
  composite branch (\<open>pwf_test < pb\<close>) the denominator
  \<open>(pr - pb) + (pb/1.8)*vogel_term\<close> is strictly positive.
\<close>

theorem solved_index_positive:
  assumes "0 < q_test" "0 \<le> pwf_test" "pwf_test < pr" "0 \<le> pb" "pb \<le> pr"
  shows "(\<exists>j. solve_j pr pb q_test pwf_test = Inr j \<and> 0 < j)
           \<and> (pwf_test < pb \<longrightarrow>
                (\<exists>vt. vogel_term pwf_test pb = Inr vt \<and> 0 < (pr - pb) + (pb / 1.8) * vt))"
proof (cases "pb \<le> pwf_test")
  case True
  then have "solve_j pr pb q_test pwf_test = Inr (q_test / (pr - pwf_test))"
    using assms by (simp add: solve_j_linear py_div_def)
  moreover have "0 < q_test / (pr - pwf_test)" using assms by simp
  ultimately show ?thesis using True by auto
next
  case False
  then have lt: "pwf_test < pb" by simp
  let ?vt = "1 - 0.2 * (pwf_test / pb) - 0.8 * (pwf_test / pb) ^ 2"
  let ?d = "(pr - pb) + (pb / 1.8) * ?vt"
  have d: "0 < ?d" using assms(2) lt assms(5) by (rule composite_denominator_pos)
  have "pb \<noteq> 0" using lt assms by linarith
  then have vt: "vogel_term pwf_test pb = Inr ?vt" by (rule vogel_term_Inr)
  have "solve_j pr pb q_test pwf_test = Inr (q_test / ?d)"
    using assms(2) lt assms(5) by (rule solve_j_vogel)
  moreover have "0 < q_test / ?d" using assms(1) d by simp
  ultimately have "\<exists>j. solve_j pr pb q_test pwf_test = Inr j \<and> 0 < j" by blast
  moreover have "\<exists>vt. vogel_term pwf_test pb = Inr vt \<and> 0 < (pr - pb) + (pb / 1.8) * vt"
    using vt d by blast
  ultimately show ?thesis by blast
qed

theorem solved_index_positive_witness:
  "(800::real) < 1000
     \<and> (\<exists>j. solve_j 2500 1000 350 800 = Inr j \<and> 0 < j)
     \<and> (\<exists>vt. vogel_term 800 1000 = Inr vt \<and> 0 < (2500 - 1000) + (1000 / 1.8) * vt)
     \<and> (\<exists>j. solve_j 2500 1000 350 2000 = Inr j \<and> 0 < j)"
  using solved_index_positive [of 350 800 2500 1000]
    solved_index_positive [of 350 2000 2500 1000]
  by simp

text \<open>
  Claim C8. For a target pressure outside \<open>[0, pr]\<close> the evaluator checks no range
  and signals no error: it applies the formula of the branch that \<open>p_val >= pb\<close>
  selects. Above \<open>pr\<close> (with \<open>pb \<le> pr\<close>) that is the linear law, extrapolated to
  \<open>J*(pr - p)\<close>, which is negative for positive J; below 0 (with \<open>pb > 0\<close>) it is the
  Vogel formula. The pressure is not clamped. The range is kept by the input widget
  of line 16, outside \<open>calculate_q\<close>.
\<close>

theorem out_of_range_rate:
  assumes "pb \<le> pr" and "pr < p \<or> (p < 0 \<and> 0 < pb)"
  shows "rate_at p pr pb j =
           Inr (if pr < p then j * (pr - p)
                else j * (pr - pb) + (j * pb / 1.8) * (1 - 0.2 * (p / pb) - 0.8 * (p / pb) ^ 2))"
proof (cases "pr < p")
  case True
  then have "pb \<le> p" using assms(1) by linarith
  then show ?thesis using True by (simp add: rate_at_linear)
next
  case False
  then have "p < 0" "0 < pb" using assms(2) by simp_all
  then have "p < pb" "pb \<noteq> 0" by linarith+
  then show ?thesis using False by (simp add: rate_at_vogel)
qed

theorem out_of_range_rate_witness:
  "rate_at 3000 2500 1000 (7 / 10) = Inr (- 350)
     \<and> rate_at (- 100) 2500 1000 (7 / 10) = Inr (12992 / 9)"
  using out_of_range_rate [of 1000 2500 3000 "7 / 10"]
    out_of_range_rate [of 1000 2500 "- 100" "7 / 10"]
  by (simp add: power2_eq_square)

text \<open>
  No error for a pressure above \<open>pr\<close>: \<open>calculate_q(3000, 2500, 1000, 350, 2000)\<close>
  returns \<open>-350\<close>.
\<close>

theorem out_of_range_pressure_extrapolates:
  "\<not> (0 \<le> (3000::real) \<and> (3000::real) \<le> 2500)
     \<and> calculate_q 3000 2500 1000 350 2000 = Inr (- 350)"
  by (simp add: calculate_q_def solve_j_def rate_at_def region_of_def py_div_def
      linear_rate_def)

text \<open>
  Claim C9. Curve sampling: for every \<open>pr > 0\<close>, \<open>0 \<le> pb \<le> pr\<close>, J and sample count
  \<open>n \<ge> 2\<close>, the sampled curve has exactly \<open>n\<close> points whose pressures are evenly
  spaced by \<open>pr / (n - 1)\<close>, strictly increasing, start at 0 and end at \<open>pr\<close>, and
  each point's rate is the evaluator's rate at that pressure with the same \<open>pr\<close>,
  \<open>pb\<close> and J. The program samples with \<open>n = 100\<close>: the pressures are then
  \<open>pwf_range\<close> of line 40, and the rates are \<open>q_curve\<close> of line 41 whenever J is the
  index solved from the test point.
\<close>

theorem sample_curve_points:
  assumes "2 \<le> n" "0 < pr" "0 \<le> pb" "pb \<le> pr"
  shows "\<exists>pts. sample_curve pr pb j n = Inr pts
           \<and> length pts = n
           \<and> fst (hd pts) = 0 \<and> fst (last pts) = pr
           \<and> sorted_wrt (<) (map fst pts)
           \<and> (\<forall>i. Suc i < n \<longrightarrow> fst (pts ! Suc i) - fst (pts ! i) = pr / real (n - 1))
           \<and> (\<forall>i<n. rate_at (fst (pts ! i)) pr pb j = Inr (snd (pts ! i)))
           \<and> (n = 100 \<longrightarrow> map fst pts = pwf_range pr)
           \<and> (n = 100 \<and> solve_j pr pb q_test pwf_test = Inr j
                \<longrightarrow> q_curve pr pb q_test pwf_test = Inr (map snd pts))"
proof -
  let ?g = "\<lambda>p. if pb \<le> p then j * (pr - p)
                else j * (pr - pb) + (j * pb / 1.8) * (1 - 0.2 * (p / pb) - 0.8 * (p / pb) ^ 2)"
  let ?xs = "linspace 0 pr n"
  let ?pts = "map (\<lambda>p. (p, ?g p)) ?xs"
  have curve: "sample_curve pr pb j n = Inr ?pts"
    using assms(1,2,3) by (rule sample_curve_eq)
  have len: "length ?pts = n" by (simp add: length_linspace)
  have fsts: "map fst ?pts = ?xs" by (simp add: comp_def)
  have ne: "?xs \<noteq> []" using assms(1) length_linspace[of 0 pr n] by auto
  have n1: "real (n - 1) \<noteq> 0" using assms(1) by simp
  have first: "fst (hd ?pts) = 0"
    using ne nth_linspace_zero[of n 0 pr] assms(1) by (simp add: hd_map hd_conv_nth)
  have "?xs ! (n - 1) = pr"
    using nth_linspace_zero[of n "n - 1" pr] assms(1) n1 by simp
  then have "last ?xs = pr"
    using ne by (simp add: last_conv_nth length_linspace)
  then have final: "fst (last ?pts) = pr"
    using ne by (simp add: last_map)
  have sorted: "sorted_wrt (<) (map fst ?pts)"
    using sorted_linspace[OF assms(1,2)] by (simp only: fsts)
  have even: "\<forall>i. Suc i < n \<longrightarrow> fst (?pts ! Suc i) - fst (?pts ! i) = pr / real (n - 1)"
    using assms(1) by (simp add: length_linspace nth_linspace_zero algebra_simps add_divide_distrib)
  have rate: "rate_at p pr pb j = Inr (?g p)" if "p \<in> set ?xs" for p
    using linspace_bounds[OF assms(1,2) that] assms(3) by (intro rate_at_total) simp_all
  then have pts: "\<forall>i<n. rate_at (fst (?pts ! i)) pr pb j = Inr (snd (?pts ! i))"
    by (simp add: length_linspace)
  have range: "n = 100 \<longrightarrow> map fst ?pts = pwf_range pr"
    by (simp add: pwf_range_def comp_def)
  have code: "q_curve pr pb q_test pwf_test = Inr (map snd ?pts)"
    if "n = 100" "solve_j pr pb q_test pwf_test = Inr j"
  proof -
    have "calculate_q p pr pb q_test pwf_test = Inr (?g p)" if "p \<in> set (pwf_range pr)" for p
      using rate[of p] that \<open>n = 100\<close> \<open>solve_j pr pb q_test pwf_test = Inr j\<close>
      by (simp add: calculate_q_def pwf_range_def)
    then have "q_curve pr pb q_test pwf_test = Inr (map ?g (pwf_range pr))"
      unfolding q_curve_def by (rule map_result_Inr)
    then show ?thesis using \<open>n = 100\<close> by (simp add: pwf_range_def comp_def)
  qed
  show ?thesis
    using curve len first final sorted even pts range code by blast
qed

theorem sample_curve_points_witness:
  "\<exists>pts. sample_curve 2500 1000 (7 / 10) 100 = Inr pts
     \<and> length pts = 100
     \<and> fst (hd pts) = 0 \<and> fst (last pts) = 2500
     \<and> sorted_wrt (<) (map fst pts)
     \<and> fst (pts ! Suc 0) - fst (pts ! 0) = 2500 / 99
     \<and> rate_at (fst (pts ! 0)) 2500 1000 (7 / 10) = Inr (snd (pts ! 0))
     \<and> map fst pts = pwf_range 2500
     \<and> q_curve 2500 1000 350 2000 = Inr (map snd pts)"
proof -
  have j: "solve_j 2500 1000 350 2000 = Inr (7 / 10)"
    by (simp add: solve_j_def region_of_def py_div_def)
  obtain pts where pts: "sample_curve 2500 1000 (7 / 10) 100 = Inr pts"
      "length pts = 100" "fst (hd pts) = 0" "fst (last pts) = 2500"
      "sorted_wrt (<) (map fst pts)"
      "\<forall>i. Suc i < 100 \<longrightarrow> fst (pts ! Suc i) - fst (pts ! i) = 2500 / real (100 - 1)"
      "\<forall>i<100. rate_at (fst (pts ! i)) 2500 1000 (7 / 10) = Inr (snd (pts ! i))"
      "(100::nat) = 100 \<longrightarrow> map fst pts = pwf_range 2500"
      "(100::nat) = 100 \<and> solve_j 2500 1000 350 2000 = Inr (7 / 10)
         \<longrightarrow> q_curve 2500 1000 350 2000 = Inr (map snd pts)"
    using sample_curve_points [of 100 2500 1000 "7 / 10" 350 2000] by auto
  have "fst (pts ! Suc 0) - fst (pts ! 0) = 2500 / 99" using pts(6) by simp
  moreover have "rate_at (fst (pts ! 0)) 2500 1000 (7 / 10) = Inr (snd (pts ! 0))"
    using pts(7) by simp
  ultimately show ?thesis using pts(1-5,8,9) j by blast
qed

text \<open>
  Two samples are needed for both ends: a single sample is the pressure 0 alone and
  does not end at \<open>pr\<close>, and no sample at all has neither a first nor a last point.
\<close>

theorem single_sample_misses_reservoir_pressure:
  "sample_curve 2500 1000 (7 / 10) 1 = Inr [(0, 12950 / 9)]
     \<and> linspace 0 2500 1 = [0] \<and> last (linspace 0 2500 1) \<noteq> 2500
     \<and> sample_curve 2500 1000 (7 / 10) 0 = Inr []"
  by (simp add: sample_curve_def linspace_def rate_at_def region_of_def vogel_rate_def
      vogel_term_def py_div_def)

text \<open>
  Claim C10. The productivity index recomputed for display at lines 67 and 68 is the
  index computed inside \<open>calculate_q\<close> at lines 21 to 29: on every input the two
  take the same branch (both dispatch on \<open>region_of pwf_test pb\<close>) and give the
  same outcome, a raised \<open>ZeroDivisionError\<close> included.
\<close>

theorem j_disp_eq_solve_j:
  "j_disp pr pb q_test pwf_test = solve_j pr pb q_test pwf_test"
  by (simp add: j_disp_def solve_j_def vogel_term_def split: region.split sum.split)

end
